theory Spec2Isabelle
  imports Main
begin

section \<open>The esbuild build executor: two result streams and their combination\<close>

text \<open>
  The executor \<^verbatim>\<open>buildExecutor\<close> drives a bundler (ESBuild) and a type checker (TSC),
  adapts what each reports to the shape \<^verbatim>\<open>{success, messageFragments}\<close>, combines the two
  adapted streams with \<^verbatim>\<open>zip\<close> or \<^verbatim>\<open>merge\<close>, logs each combined value and maps it to
  \<^verbatim>\<open>{success, outfile}\<close>. The executor returns a promise (\<^verbatim>\<open>toPromise\<close>) when
  \<^verbatim>\<open>watch\<close> is off and an async iterator (\<^verbatim>\<open>eachValueFrom\<close>) when it is on.

  The model is sequential: an observable is seen through the notifications it delivers
  (\<^verbatim>\<open>next\<close>, \<^verbatim>\<open>error\<close>, \<^verbatim>\<open>complete\<close>), a closure variable is a value passed from one
  notification to the next, and \<^verbatim>\<open>console.log\<close> appends a line block to a list.
\<close>

subsection \<open>Notifications\<close>

datatype 'a notification = Next 'a | Error | Complete

datatype status = Open | Completed | Failed

text \<open>
  What a subscriber has seen of one observable: the values delivered before the first
  terminal notification, and how the observable ended (\<open>Open\<close>: it has not ended). A
  subscriber is stopped by the terminal notification, so nothing behind it is seen.
\<close>

fun observe :: "'a notification list \<Rightarrow> 'a list \<times> status" where
  "observe [] = ([], Open)"
| "observe (Next v # ns) = (case observe ns of (vs, st) \<Rightarrow> (v # vs, st))"
| "observe (Error # ns) = ([], Failed)"
| "observe (Complete # ns) = ([], Completed)"

subsection \<open>Strings\<close>

text \<open>
  A JavaScript string is modelled as a \<open>string\<close>; its characters are the code units
  below 256. \<open>isSpace\<close> is the class \<^verbatim>\<open>\s\<close> on these (tab, line feed, vertical tab,
  form feed, carriage return, space, no-break space), \<open>isDigit\<close> is \<^verbatim>\<open>\d\<close>.
\<close>

definition isSpace :: "char \<Rightarrow> bool" where
  "isSpace c = (let n = (of_char c :: nat) in (9 \<le> n \<and> n \<le> 13) \<or> n = 32 \<or> n = 160)"

definition isDigit :: "char \<Rightarrow> bool" where
  "isDigit c = (let n = (of_char c :: nat) in 48 \<le> n \<and> n \<le> 57)"

text \<open>\<open>startsWith p s\<close> strips the literal \<open>p\<close> from the front of \<open>s\<close>.\<close>

fun startsWith :: "string \<Rightarrow> string \<Rightarrow> string option" where
  "startsWith [] s = Some s"
| "startsWith (p # ps) [] = None"
| "startsWith (p # ps) (c # cs) = (if p = c then startsWith ps cs else None)"

text \<open>
  The regular expression \<^verbatim>\<open>/Found\s\d*\serror/\<close> tried at the front of a string. The
  digits are taken greedily; no digit is a space, so backtracking finds nothing more.
\<close>

definition foundAt :: "string \<Rightarrow> bool" where
  "foundAt s =
     (case startsWith ''Found'' s of
        None \<Rightarrow> False
      | Some r1 \<Rightarrow>
          (case r1 of
             [] \<Rightarrow> False
           | w1 # r2 \<Rightarrow>
               isSpace w1 \<and>
               (case dropWhile isDigit r2 of
                  [] \<Rightarrow> False
                | w2 # r3 \<Rightarrow> isSpace w2 \<and> startsWith ''error'' r3 \<noteq> None)))"

text \<open>\<^verbatim>\<open>s.match(/Found\s\d*\serror/)\<close> is not null: the expression matches somewhere.\<close>

fun foundErrorCount :: "string \<Rightarrow> bool" where
  "foundErrorCount [] = foundAt []"
| "foundErrorCount (c # cs) = (foundAt (c # cs) \<or> foundErrorCount cs)"

text \<open>\<^verbatim>\<open>s.includes(t)\<close>.\<close>

fun includesStr :: "string \<Rightarrow> string \<Rightarrow> bool" where
  "includesStr [] t = (t = [])"
| "includesStr (c # cs) t = (startsWith t (c # cs) \<noteq> None \<or> includesStr cs t)"

text \<open>\<^verbatim>\<open>xs.join('\n')\<close>.\<close>

fun joinLines :: "string list \<Rightarrow> string" where
  "joinLines [] = []"
| "joinLines [x] = x"
| "joinLines (x # y # ys) = x @ [CHR 0x0A] @ joinLines (y # ys)"

text \<open>A counter in a template literal: the decimal digits of the number.\<close>

fun showNat :: "nat \<Rightarrow> string" where
  "showNat n =
     (if n < 10 then [''0123456789'' ! n]
      else showNat (n div 10) @ [''0123456789'' ! (n mod 10)])"

declare showNat.simps [simp del]

text \<open>A string in a condition: the empty string and \<^verbatim>\<open>undefined\<close> are falsy.\<close>

definition truthy :: "string option \<Rightarrow> bool" where
  "truthy s = (case s of None \<Rightarrow> False | Some t \<Rightarrow> t \<noteq> [])"

subsection \<open>Data\<close>

text \<open>
  The bundler's event. \<^verbatim>\<open>buildFailure\<close> is null or a failure object; an object is
  truthy, so \<^verbatim>\<open>!buildFailure\<close> holds exactly when it is null.
\<close>

record ('r, 'f) RawBundlerEvent =
  buildResult :: 'r
  buildFailure :: "'f option"

text \<open>The type checker's fragment \<^verbatim>\<open>{info?, error?, end?}\<close>; \<open>ended\<close> is its field \<^verbatim>\<open>end\<close>.\<close>

record TscRunnerResponse =
  info :: "string option"
  error :: "string option"
  ended :: "bool option"

text \<open>
  The fragment after the first \<^verbatim>\<open>map\<close> of the type-check pipeline; \<open>fragMessages\<close> is its
  field \<^verbatim>\<open>messageFragments\<close>.
\<close>

record TscChecked = TscRunnerResponse +
  hasErrors :: bool
  fragMessages :: "string list"

record Outcome =
  success :: bool

record RunnerSubcriber = Outcome +
  messageFragments :: "string list"

record ExecutorResponse = Outcome +
  outfile :: "string option"

text \<open>
  The helpers of \<^verbatim>\<open>./lib/log\<close> and \<^verbatim>\<open>./lib/message-fragments\<close>, \<^verbatim>\<open>chalk.blue\<close> and
  \<^verbatim>\<open>path.join\<close> are parameters. A message collector appends lines to the empty array it
  is given; the parameter returns these lines.
\<close>

record ('r, 'f) Env =
  pluginTitle :: "string \<Rightarrow> string"
  buildTimes :: "string \<Rightarrow> string"
  timeStamp :: "string \<Rightarrow> string"
  chalkBlue :: "string \<Rightarrow> string"
  pathJoin :: "string \<Rightarrow> string \<Rightarrow> string"
  collectESBuildRunnerMessages :: "('r, 'f) RawBundlerEvent \<Rightarrow> string \<Rightarrow> string list"
  collectTSCRunnerMessages :: "TscRunnerResponse \<Rightarrow> string \<Rightarrow> string list"

record Options =
  skipTypeCheck :: bool
  watch :: bool
  useMergeCombine :: bool
  outputPath :: string

subsection \<open>The bundler adapter\<close>

text \<open>
  An event comes with the clock reading \<^verbatim>\<open>dayjs().format('H:mm:ss A')\<close> taken while it is
  handled. \<open>prefixESBuild\<close> reads the counter it is given.
\<close>

definition prefixESBuild :: "('r, 'f) Env \<Rightarrow> nat \<Rightarrow> string \<Rightarrow> string" where
  "prefixESBuild env buildCounter clock =
     pluginTitle env ''nx-plugin-esbuild'' @ '' ESBuild '' @
     buildTimes env (''['' @ showNat buildCounter @ '']'') @ '' '' @ timeStamp env clock"

text \<open>
  One notification through \<^verbatim>\<open>tap(() => buildCounter++)\<close> and the \<^verbatim>\<open>map\<close> behind it: the
  counter is incremented first, the prefix is computed from the incremented counter.
\<close>

fun esBuildSubscriber_on ::
  "('r, 'f) Env \<Rightarrow> nat \<Rightarrow> (string \<times> ('r, 'f) RawBundlerEvent) notification \<Rightarrow>
   nat \<times> RunnerSubcriber notification" where
  "esBuildSubscriber_on env buildCounter (Next (clock, ev)) =
     (let buildCounter' = buildCounter + 1 in
      (buildCounter',
       Next \<lparr>success = (buildFailure ev = None),
             messageFragments =
               collectESBuildRunnerMessages env ev (prefixESBuild env buildCounter' clock)\<rparr>))"
| "esBuildSubscriber_on env buildCounter Error = (buildCounter, Error)"
| "esBuildSubscriber_on env buildCounter Complete = (buildCounter, Complete)"

fun esBuildSubscriber ::
  "('r, 'f) Env \<Rightarrow> nat \<Rightarrow> (string \<times> ('r, 'f) RawBundlerEvent) notification list \<Rightarrow>
   RunnerSubcriber notification list" where
  "esBuildSubscriber env buildCounter [] = []"
| "esBuildSubscriber env buildCounter (n # ns) =
     (case esBuildSubscriber_on env buildCounter n of
        (buildCounter', r) \<Rightarrow> r # esBuildSubscriber env buildCounter' ns)"

subsection \<open>The type-check adapter\<close>

definition prefixTsc :: "('r, 'f) Env \<Rightarrow> nat \<Rightarrow> string \<Rightarrow> string" where
  "prefixTsc env typeCounter clock =
     pluginTitle env ''nx-plugin-esbuild'' @ '' TSC '' @
     buildTimes env (''['' @ showNat typeCounter @ '']'') @ '' '' @ timeStamp env clock"

text \<open>The first \<^verbatim>\<open>map\<close>: \<^verbatim>\<open>hasErrors\<close> and the message lines of one fragment.\<close>

definition checkFragment ::
  "('r, 'f) Env \<Rightarrow> nat \<Rightarrow> string \<times> TscRunnerResponse \<Rightarrow> TscChecked" where
  "checkFragment env typeCounter cr =
     (case cr of (clock, res) \<Rightarrow>
        \<lparr>info = info res, error = error res, ended = ended res,
         hasErrors =
           (if (case info res of
                  None \<Rightarrow> False
                | Some s \<Rightarrow> s \<noteq> [] \<and> foundErrorCount s \<and> \<not> includesStr s ''Found 0 errors'')
            then True else truthy (error res)),
         fragMessages = collectTSCRunnerMessages env res (prefixTsc env typeCounter clock)\<rparr>)"

text \<open>The predicate given to \<^verbatim>\<open>bufferUntil\<close>.\<close>

definition cycleEnd :: "'a TscRunnerResponse_scheme \<Rightarrow> bool" where
  "cycleEnd v =
     ((case info v of None \<Rightarrow> False | Some s \<Rightarrow> foundErrorCount s) \<or>
      (case error v of None \<Rightarrow> False | Some s \<Rightarrow> foundErrorCount s))"

text \<open>
  Modelled from the spec: \<^verbatim>\<open>bufferUntil\<close> of \<^verbatim>\<open>nx-plugin-devkit\<close>, which is not among the
  sources. The spec: keep an accumulator, append each incoming fragment, evaluate the
  predicate on the current fragment after appending; when it holds, emit the accumulated
  batch and reset the accumulator to empty. When the source ends, what is left in the
  accumulator is dropped. \<open>bufferUntil_on\<close> is one fragment: the new accumulator and the
  batch emitted, if one is. An error of the source is passed on.
\<close>

definition bufferUntil_on :: "('a \<Rightarrow> bool) \<Rightarrow> 'a list \<Rightarrow> 'a \<Rightarrow> 'a list \<times> 'a list option" where
  "bufferUntil_on p acc x =
     (let acc' = acc @ [x] in if p x then ([], Some acc') else (acc', None))"

text \<open>
  Modelled from the spec: \<^verbatim>\<open>bufferUntil\<close> along a sequence of fragments, from the
  accumulator \<open>acc\<close>.
\<close>

fun bufferUntil :: "('a \<Rightarrow> bool) \<Rightarrow> 'a list \<Rightarrow> 'a list \<Rightarrow> 'a list list \<times> 'a list" where
  "bufferUntil p acc [] = ([], acc)"
| "bufferUntil p acc (x # xs) =
     (case bufferUntil_on p acc x of
        (acc', None) \<Rightarrow> bufferUntil p acc' xs
      | (acc', Some batch) \<Rightarrow>
          (case bufferUntil p acc' xs of (batches, rest) \<Rightarrow> (batch # batches, rest)))"

text \<open>The second \<^verbatim>\<open>map\<close>: one batch folded into one result.\<close>

definition foldBatch :: "TscChecked list \<Rightarrow> RunnerSubcriber" where
  "foldBatch vals =
     \<lparr>success = (find hasErrors vals = None),
      messageFragments = concat (map fragMessages vals)\<rparr>"

text \<open>
  One notification through the whole pipeline. The state is the counter \<^verbatim>\<open>typeCounter\<close>
  and the accumulator of \<^verbatim>\<open>bufferUntil\<close>. The prefix of a fragment reads the counter as it
  is when the fragment arrives; \<^verbatim>\<open>tap(() => typeCounter++)\<close> runs when a batch is emitted.
  \<^verbatim>\<open>catchError\<close> is the last operator: an error becomes one failed result and the end of
  the stream.
\<close>

fun tscSubscriber_on ::
  "('r, 'f) Env \<Rightarrow> nat \<times> TscChecked list \<Rightarrow> (string \<times> TscRunnerResponse) notification \<Rightarrow>
   (nat \<times> TscChecked list) \<times> RunnerSubcriber notification list" where
  "tscSubscriber_on env (typeCounter, acc) (Next cr) =
     (case bufferUntil_on cycleEnd acc (checkFragment env typeCounter cr) of
        (acc', None) \<Rightarrow> ((typeCounter, acc'), [])
      | (acc', Some batch) \<Rightarrow> ((typeCounter + 1, acc'), [Next (foldBatch batch)]))"
| "tscSubscriber_on env (typeCounter, acc) Error =
     ((typeCounter, acc), [Next \<lparr>success = False, messageFragments = []\<rparr>, Complete])"
| "tscSubscriber_on env (typeCounter, acc) Complete = ((typeCounter, acc), [Complete])"

fun tscSubscriber ::
  "('r, 'f) Env \<Rightarrow> nat \<times> TscChecked list \<Rightarrow> (string \<times> TscRunnerResponse) notification list \<Rightarrow>
   RunnerSubcriber notification list" where
  "tscSubscriber env st [] = []"
| "tscSubscriber env st (n # ns) =
     (case tscSubscriber_on env st n of (st', rs) \<Rightarrow> rs @ tscSubscriber env st' ns)"

subsection \<open>Two sources on one time line\<close>

text \<open>
  The two adapters run side by side. A time line lists the notifications of both in the
  order in which they are delivered.
\<close>

datatype ('a, 'b) arrival = FromES "'a notification" | FromTSC "'b notification"

fun esArrivals :: "('a, 'b) arrival list \<Rightarrow> 'a notification list" where
  "esArrivals [] = []"
| "esArrivals (FromES n # as) = n # esArrivals as"
| "esArrivals (FromTSC n # as) = esArrivals as"

fun tscArrivals :: "('a, 'b) arrival list \<Rightarrow> 'b notification list" where
  "tscArrivals [] = []"
| "tscArrivals (FromES n # as) = tscArrivals as"
| "tscArrivals (FromTSC n # as) = n # tscArrivals as"

text \<open>
  A time line that an observer of both sources can see: a source delivers nothing after
  its own \<open>Complete\<close>, and nothing at all is delivered after an \<open>Error\<close>, since \<^verbatim>\<open>zip\<close> and
  \<^verbatim>\<open>merge\<close> unsubscribe from both sources when one of them fails.
\<close>

fun wellFormed :: "bool \<Rightarrow> bool \<Rightarrow> ('a, 'b) arrival list \<Rightarrow> bool" where
  "wellFormed esEnded tscEnded [] = True"
| "wellFormed esEnded tscEnded (FromES n # as) =
     (\<not> esEnded \<and>
      (case n of
         Next v \<Rightarrow> wellFormed esEnded tscEnded as
       | Error \<Rightarrow> as = []
       | Complete \<Rightarrow> wellFormed True tscEnded as))"
| "wellFormed esEnded tscEnded (FromTSC n # as) =
     (\<not> tscEnded \<and>
      (case n of
         Next v \<Rightarrow> wellFormed esEnded tscEnded as
       | Error \<Rightarrow> as = []
       | Complete \<Rightarrow> wellFormed esEnded True as))"

text \<open>Both adapters along a time line of raw notifications, each with its own state.\<close>

fun adapters ::
  "('r, 'f) Env \<Rightarrow> nat \<Rightarrow> nat \<times> TscChecked list \<Rightarrow>
   (string \<times> ('r, 'f) RawBundlerEvent, string \<times> TscRunnerResponse) arrival list \<Rightarrow>
   (RunnerSubcriber, RunnerSubcriber) arrival list" where
  "adapters env buildCounter st [] = []"
| "adapters env buildCounter st (FromES n # as) =
     (case esBuildSubscriber_on env buildCounter n of
        (buildCounter', r) \<Rightarrow> FromES r # adapters env buildCounter' st as)"
| "adapters env buildCounter st (FromTSC n # as) =
     (case tscSubscriber_on env st n of
        (st', rs) \<Rightarrow> map FromTSC rs @ adapters env buildCounter st' as)"

subsection \<open>\<^verbatim>\<open>zip\<close>\<close>

text \<open>
  \<^verbatim>\<open>zip\<close> of RxJS 6 keeps one buffer for each source. A value is pushed on the buffer of
  its source; when both buffers hold a value, the two heads are shifted out and emitted
  as a pair, and the result completes if a source that has completed has an empty buffer
  now. A source that completes with an empty buffer completes the result at once; with
  values left it is marked complete. An error of a source is the error of the result.
\<close>

record ('a, 'b) ZipState =
  esBuffer :: "'a list"
  tscBuffer :: "'b list"
  esComplete :: bool
  tscComplete :: bool
  zipped :: "('a \<times> 'b) list"
  zipStatus :: status

definition checkIterators :: "('a, 'b) ZipState \<Rightarrow> ('a, 'b) ZipState" where
  "checkIterators z =
     (case esBuffer z of
        [] \<Rightarrow> z
      | b # bs \<Rightarrow>
          (case tscBuffer z of
             [] \<Rightarrow> z
           | t # ts \<Rightarrow>
               z\<lparr>esBuffer := bs, tscBuffer := ts, zipped := zipped z @ [(b, t)],
                 zipStatus :=
                   (if (bs = [] \<and> esComplete z) \<or> (ts = [] \<and> tscComplete z)
                    then Completed else Open)\<rparr>))"

fun zip_on :: "('a, 'b) ZipState \<Rightarrow> ('a, 'b) arrival \<Rightarrow> ('a, 'b) ZipState" where
  "zip_on z (FromES n) =
     (if zipStatus z \<noteq> Open \<or> esComplete z then z
      else case n of
        Next v \<Rightarrow> checkIterators (z\<lparr>esBuffer := esBuffer z @ [v]\<rparr>)
      | Error \<Rightarrow> z\<lparr>zipStatus := Failed\<rparr>
      | Complete \<Rightarrow>
          (if esBuffer z = [] then z\<lparr>zipStatus := Completed\<rparr>
           else z\<lparr>esComplete := True,
                  zipStatus := (if tscComplete z then Completed else Open)\<rparr>))"
| "zip_on z (FromTSC n) =
     (if zipStatus z \<noteq> Open \<or> tscComplete z then z
      else case n of
        Next v \<Rightarrow> checkIterators (z\<lparr>tscBuffer := tscBuffer z @ [v]\<rparr>)
      | Error \<Rightarrow> z\<lparr>zipStatus := Failed\<rparr>
      | Complete \<Rightarrow>
          (if tscBuffer z = [] then z\<lparr>zipStatus := Completed\<rparr>
           else z\<lparr>tscComplete := True,
                  zipStatus := (if esComplete z then Completed else Open)\<rparr>))"

fun zip_run :: "('a, 'b) ZipState \<Rightarrow> ('a, 'b) arrival list \<Rightarrow> ('a, 'b) ZipState" where
  "zip_run z [] = z"
| "zip_run z (a # as) = zip_run (zip_on z a) as"

definition zipStart :: "('a, 'b) ZipState" where
  "zipStart =
     \<lparr>esBuffer = [], tscBuffer = [], esComplete = False, tscComplete = False,
      zipped = [], zipStatus = Open\<rparr>"

subsection \<open>\<^verbatim>\<open>merge\<close>\<close>

text \<open>
  \<^verbatim>\<open>merge\<close> passes every value on as it arrives, fails when a source fails and completes
  when both sources have completed.
\<close>

record 'a MergeState =
  merged :: "'a list"
  esDone :: bool
  tscDone :: bool
  mergeStatus :: status

fun merge_on :: "'a MergeState \<Rightarrow> ('a, 'a) arrival \<Rightarrow> 'a MergeState" where
  "merge_on m (FromES n) =
     (if mergeStatus m \<noteq> Open \<or> esDone m then m
      else case n of
        Next v \<Rightarrow> m\<lparr>merged := merged m @ [v]\<rparr>
      | Error \<Rightarrow> m\<lparr>mergeStatus := Failed\<rparr>
      | Complete \<Rightarrow>
          m\<lparr>esDone := True, mergeStatus := (if tscDone m then Completed else Open)\<rparr>)"
| "merge_on m (FromTSC n) =
     (if mergeStatus m \<noteq> Open \<or> tscDone m then m
      else case n of
        Next v \<Rightarrow> m\<lparr>merged := merged m @ [v]\<rparr>
      | Error \<Rightarrow> m\<lparr>mergeStatus := Failed\<rparr>
      | Complete \<Rightarrow>
          m\<lparr>tscDone := True, mergeStatus := (if esDone m then Completed else Open)\<rparr>)"

fun merge_run :: "'a MergeState \<Rightarrow> ('a, 'a) arrival list \<Rightarrow> 'a MergeState" where
  "merge_run m [] = m"
| "merge_run m (a # as) = merge_run (merge_on m a) as"

definition mergeStart :: "'a MergeState" where
  "mergeStart = \<lparr>merged = [], esDone = False, tscDone = False, mergeStatus = Open\<rparr>"

subsection \<open>The executor\<close>

text \<open>
  What a subscriber of one of the executor's streams sees: the responses, how the stream
  ended, and the blocks written by \<^verbatim>\<open>console.log\<close> in the \<^verbatim>\<open>tap\<close> of that stream.
\<close>

record ExecutorRun =
  responses :: "ExecutorResponse list"
  runStatus :: status
  consoleLog :: "string list"

definition mainJs :: "('r, 'f) Env \<Rightarrow> Options \<Rightarrow> string option" where
  "mainJs env options = Some (pathJoin env (outputPath options) ''main.js'')"

text \<open>
  \<^verbatim>\<open>baseESBuildSubscriber\<close>: the bundler adapter alone, logged, mapped, and behind
  \<^verbatim>\<open>catchError\<close>, which turns an error into one last response and the end of the stream.
\<close>

definition baseESBuildSubscriber ::
  "('r, 'f) Env \<Rightarrow> Options \<Rightarrow> (string \<times> ('r, 'f) RawBundlerEvent) notification list \<Rightarrow>
   ExecutorRun" where
  "baseESBuildSubscriber env options ns =
     (case observe (esBuildSubscriber env 1 ns) of
        (buildResults, st) \<Rightarrow>
          \<lparr>responses =
             map (\<lambda>r. \<lparr>success = success r, outfile = mainJs env options\<rparr>) buildResults @
             (if st = Failed then [\<lparr>success = False, outfile = None\<rparr>] else []),
           runStatus = (if st = Failed then Completed else st),
           consoleLog = map (\<lambda>r. joinLines (messageFragments r)) buildResults\<rparr>)"

text \<open>The values given to \<^verbatim>\<open>startWith\<close>.\<close>

definition esStarting :: "('r, 'f) Env \<Rightarrow> string" where
  "esStarting env = chalkBlue env ''i'' @ '' ESBuild Compiler Starting...''"

definition tscStarting :: "('r, 'f) Env \<Rightarrow> string" where
  "tscStarting env = chalkBlue env ''i'' @ '' TypeScript Compiler Starting...''"

text \<open>
  \<^verbatim>\<open>baseSubscriber\<close> over a time line of adapted results: the \<^verbatim>\<open>merge\<close> branch and the
  \<^verbatim>\<open>zip\<close> branch, each with \<^verbatim>\<open>startWith\<close>, \<^verbatim>\<open>tap\<close> and \<^verbatim>\<open>map\<close>. Neither has a
  \<^verbatim>\<open>catchError\<close>.
\<close>

definition mergeBranch ::
  "('r, 'f) Env \<Rightarrow> Options \<Rightarrow> (RunnerSubcriber, RunnerSubcriber) arrival list \<Rightarrow>
   ExecutorRun" where
  "mergeBranch env options tline =
     (let m = merge_run mergeStart tline;
          emitted =
            \<lparr>success = True, messageFragments = [esStarting env, tscStarting env]\<rparr> # merged m
      in \<lparr>responses = map (\<lambda>res. \<lparr>success = success res, outfile = mainJs env options\<rparr>) emitted,
          runStatus = mergeStatus m,
          consoleLog = map (\<lambda>res. joinLines (messageFragments res)) emitted\<rparr>)"

definition zipBranch ::
  "('r, 'f) Env \<Rightarrow> Options \<Rightarrow> (RunnerSubcriber, RunnerSubcriber) arrival list \<Rightarrow>
   ExecutorRun" where
  "zipBranch env options tline =
     (let z = zip_run zipStart tline;
          emitted =
            (\<lparr>success = True, messageFragments = [esStarting env]\<rparr>,
             \<lparr>success = True, messageFragments = [tscStarting env]\<rparr>) # zipped z
      in \<lparr>responses =
            map (\<lambda>(buildResults, tscResults).
                   \<lparr>success = (success buildResults \<and> success tscResults),
                    outfile = mainJs env options\<rparr>) emitted,
          runStatus = zipStatus z,
          consoleLog =
            concat (map (\<lambda>(buildResults, tscResults).
                           [joinLines (messageFragments tscResults),
                            joinLines (messageFragments buildResults)]) emitted)\<rparr>)"

definition baseSubscriber ::
  "('r, 'f) Env \<Rightarrow> Options \<Rightarrow> (RunnerSubcriber, RunnerSubcriber) arrival list \<Rightarrow>
   ExecutorRun" where
  "baseSubscriber env options tline =
     (if useMergeCombine options then mergeBranch env options tline else zipBranch env options tline)"

text \<open>
  \<^verbatim>\<open>toPromise\<close> of RxJS 6 remembers the value of each \<^verbatim>\<open>next\<close>, resolves with the one
  remembered when the observable completes (\<^verbatim>\<open>undefined\<close> if there was none) and rejects
  when it fails. While the observable is open the promise is pending.
\<close>

datatype 'a promise = Pending | Resolved "'a option" | Rejected

definition toPromise :: "ExecutorRun \<Rightarrow> ExecutorResponse promise" where
  "toPromise run =
     (case runStatus run of
        Open \<Rightarrow> Pending
      | Failed \<Rightarrow> Rejected
      | Completed \<Rightarrow>
          Resolved (if responses run = [] then None else Some (last (responses run))))"

text \<open>\<^verbatim>\<open>eachValueFrom\<close> hands every response to the caller, and the end of the stream.\<close>

datatype returned =
  Promised "ExecutorResponse promise"
| Iterated "ExecutorResponse list" status

definition eachValueFrom :: "ExecutorRun \<Rightarrow> returned" where
  "eachValueFrom run = Iterated (responses run) (runStatus run)"

text \<open>
  \<^verbatim>\<open>buildExecutor\<close> from the point where the options are resolved. Both counters start
  at 1. With \<^verbatim>\<open>skipTypeCheck\<close> the type checker is not started and its notifications do
  not exist; the model drops them from the time line.
\<close>

definition buildExecutor ::
  "('r, 'f) Env \<Rightarrow> Options \<Rightarrow>
   (string \<times> ('r, 'f) RawBundlerEvent, string \<times> TscRunnerResponse) arrival list \<Rightarrow>
   returned" where
  "buildExecutor env options tline =
     (if \<not> watch options \<and> skipTypeCheck options
      then Promised (toPromise (baseESBuildSubscriber env options (esArrivals tline)))
      else if watch options \<and> skipTypeCheck options
      then eachValueFrom (baseESBuildSubscriber env options (esArrivals tline))
      else if \<not> watch options
      then Promised (toPromise (baseSubscriber env options (adapters env 1 (1, []) tline)))
      else eachValueFrom (baseSubscriber env options (adapters env 1 (1, []) tline)))"

subsection \<open>Notions used in the statements\<close>

text \<open>The values a subscriber has received from one source.\<close>

definition emittedBy :: "'a notification list \<Rightarrow> 'a list" where
  "emittedBy ns = fst (observe ns)"

text \<open>The values on a time line, of either source, in the order of their arrival.\<close>

fun arrivedValues :: "('a, 'a) arrival list \<Rightarrow> 'a list" where
  "arrivedValues [] = []"
| "arrivedValues (FromES (Next v) # as) = v # arrivedValues as"
| "arrivedValues (FromTSC (Next v) # as) = v # arrivedValues as"
| "arrivedValues (a # as) = arrivedValues as"

text \<open>
  An environment for concrete runs: the log helpers return the text they are given, a
  path is joined with a slash, and each collector returns one line, the prefix followed
  by what the backend reported.
\<close>

definition plainEnv :: "(unit, string) Env" where
  "plainEnv =
     \<lparr>pluginTitle = (\<lambda>s. s), buildTimes = (\<lambda>s. s), timeStamp = (\<lambda>s. s),
      chalkBlue = (\<lambda>s. s), pathJoin = (\<lambda>d f. d @ ''/'' @ f),
      collectESBuildRunnerMessages =
        (\<lambda>ev p. [p @ (case buildFailure ev of None \<Rightarrow> '' ok'' | Some f \<Rightarrow> '' '' @ f)]),
      collectTSCRunnerMessages =
        (\<lambda>res p. [p @ '' '' @ (case info res of None \<Rightarrow> [] | Some s \<Rightarrow> s)])\<rparr>"

text \<open>
  One rebuild that the bundler fails and the type checker passes, both sources ending
  after it.
\<close>

definition failedBuild :: RunnerSubcriber where
  "failedBuild = \<lparr>success = False, messageFragments = [''ESBuild [2] build failed'']\<rparr>"

definition cleanCheck :: RunnerSubcriber where
  "cleanCheck = \<lparr>success = True, messageFragments = [''TSC [1] Found 0 errors'']\<rparr>"

definition failThenPass :: "(RunnerSubcriber, RunnerSubcriber) arrival list" where
  "failThenPass =
     [FromES (Next failedBuild), FromTSC (Next cleanCheck), FromES Complete, FromTSC Complete]"

definition oneShot :: Options where
  "oneShot =
     \<lparr>skipTypeCheck = False, watch = False, useMergeCombine = False, outputPath = ''dist''\<rparr>"

text \<open>
  \<open>hasErrors\<close> in the words of the specification, to be compared with the field computed
  by \<open>checkFragment\<close>: true if an \<^verbatim>\<open>error\<close> field is present, or if \<^verbatim>\<open>info\<close> matches the
  completion marker and the matched count is not exactly zero. \<open>matchedCount\<close> is the
  digit string of the leftmost match of the marker; the count is exactly zero when that
  string is the single digit 0.
\<close>

definition countAt :: "string \<Rightarrow> string option" where
  "countAt s =
     (case startsWith ''Found'' s of
        None \<Rightarrow> None
      | Some r1 \<Rightarrow>
          (case r1 of
             [] \<Rightarrow> None
           | w1 # r2 \<Rightarrow> if foundAt s then Some (takeWhile isDigit r2) else None))"

fun matchedCount :: "string \<Rightarrow> string option" where
  "matchedCount [] = countAt []"
| "matchedCount (c # cs) =
     (case countAt (c # cs) of Some ds \<Rightarrow> Some ds | None \<Rightarrow> matchedCount cs)"

definition specHasErrors :: "TscRunnerResponse \<Rightarrow> bool" where
  "specHasErrors res =
     (error res \<noteq> None \<or>
      (case info res of
         None \<Rightarrow> False
       | Some s \<Rightarrow> (case matchedCount s of None \<Rightarrow> False | Some ds \<Rightarrow> ds \<noteq> ''0'')))"

text \<open>A notification that carries a value: neither source has ended with it.\<close>

fun isNext :: "('a, 'b) arrival \<Rightarrow> bool" where
  "isNext (FromES (Next v)) = True"
| "isNext (FromTSC (Next v)) = True"
| "isNext a = False"

text \<open>
  The stream that \<^verbatim>\<open>buildExecutor\<close> hands to \<^verbatim>\<open>toPromise\<close> or to \<^verbatim>\<open>eachValueFrom\<close>.
\<close>

definition executorStream ::
  "('r, 'f) Env \<Rightarrow> Options \<Rightarrow>
   (string \<times> ('r, 'f) RawBundlerEvent, string \<times> TscRunnerResponse) arrival list \<Rightarrow>
   ExecutorRun" where
  "executorStream env options tline =
     (if skipTypeCheck options then baseESBuildSubscriber env options (esArrivals tline)
      else baseSubscriber env options (adapters env 1 (1, []) tline))"

text \<open>
  Raw runs. In \<open>rawFailThenPass\<close> the bundler reports a failed build, the type checker
  reports a clean cycle, and both end. In \<open>crashAfterCycle\<close> the type checker completes a
  cycle with one error, starts the next one and then fails.
\<close>

definition rawFailThenPass ::
  "(string \<times> (unit, string) RawBundlerEvent, string \<times> TscRunnerResponse) arrival list" where
  "rawFailThenPass =
     [FromES (Next (''9:00:00 AM'', \<lparr>buildResult = (), buildFailure = Some ''boom''\<rparr>)),
      FromTSC (Next (''9:00:01 AM'',
                     \<lparr>info = Some ''Found 0 errors.'', error = None, ended = None\<rparr>)),
      FromES Complete, FromTSC Complete]"

definition crashAfterCycle :: "(string \<times> TscRunnerResponse) notification list" where
  "crashAfterCycle =
     [Next (''9:00:01 AM'', \<lparr>info = Some ''a.ts: TS2322'', error = None, ended = None\<rparr>),
      Next (''9:00:02 AM'', \<lparr>info = Some ''Found 1 error.'', error = None, ended = None\<rparr>),
      Next (''9:00:03 AM'',
            \<lparr>info = Some ''File change detected'', error = None, ended = None\<rparr>),
      Error]"

definition seenFragments :: "TscChecked list" where
  "seenFragments = map (checkFragment plainEnv 1) (emittedBy crashAfterCycle)"

definition cleanMarker :: TscChecked where
  "cleanMarker =
     checkFragment plainEnv 2
       (''9:00:04 AM'', \<lparr>info = Some ''Found 0 errors.'', error = None, ended = None\<rparr>)"

section \<open>Properties\<close>

subsection \<open>Notifications and time lines\<close>

lemma emittedBy_simps [simp]:
  "emittedBy [] = []"
  "emittedBy (Next v # ns) = v # emittedBy ns"
  "emittedBy (Error # ns) = []"
  "emittedBy (Complete # ns) = []"
  by (simp_all add: emittedBy_def split: prod.splits)

lemma wellFormed_es_ended: "wellFormed True tscEnded tline \<Longrightarrow> esArrivals tline = []"
proof (induction tline arbitrary: tscEnded)
  case Nil
  then show ?case by simp
next
  case (Cons a tline)
  then show ?case by (cases a) (auto split: notification.splits)
qed

lemma wellFormed_tsc_ended: "wellFormed esEnded True tline \<Longrightarrow> tscArrivals tline = []"
proof (induction tline arbitrary: esEnded)
  case Nil
  then show ?case by simp
next
  case (Cons a tline)
  then show ?case by (cases a) (auto split: notification.splits)
qed

subsection \<open>\<^verbatim>\<open>zip\<close> pairs the results by their position\<close>

lemma zip_run_closed: "zipStatus z \<noteq> Open \<Longrightarrow> zip_run z tline = z"
proof (induction tline)
  case Nil
  then show ?case by simp
next
  case (Cons a tline)
  then show ?case by (cases a) simp_all
qed

text \<open>
  While \<^verbatim>\<open>zip\<close> is open, one of its buffers is empty and a source marked complete has a
  value buffered. From such a state the pairs emitted along a well-formed time line are
  the buffered values and the values still to arrive, paired by position.
\<close>

lemma zip_run_zipped:
  assumes "zipStatus z = Open"
    and "esBuffer z = [] \<or> tscBuffer z = []"
    and "wellFormed (esComplete z) (tscComplete z) tline"
    and "esComplete z \<longrightarrow> esBuffer z \<noteq> []"
    and "tscComplete z \<longrightarrow> tscBuffer z \<noteq> []"
  shows "zipped (zip_run z tline) =
         zipped z @ zip (esBuffer z @ emittedBy (esArrivals tline))
                        (tscBuffer z @ emittedBy (tscArrivals tline))"
  using assms
proof (induction tline arbitrary: z)
  case Nil
  then show ?case by auto
next
  case (Cons a tline)
  show ?case
  proof (cases a)
    case (FromES n)
    show ?thesis
    proof (cases n)
      case (Next v)
      show ?thesis
      proof (cases "tscBuffer z")
        case Nil
        let ?z = "z\<lparr>esBuffer := esBuffer z @ [v]\<rparr>"
        have step: "zip_on z a = ?z"
          using Cons.prems FromES Next Nil by (auto simp: checkIterators_def split: list.splits)
        have "zipped (zip_run ?z tline) =
              zipped ?z @ zip (esBuffer ?z @ emittedBy (esArrivals tline))
                              (tscBuffer ?z @ emittedBy (tscArrivals tline))"
          using Cons.prems FromES Next Nil by (intro Cons.IH) auto
        then show ?thesis using step FromES Next by simp
      next
        case (Cons t ts)
        then have eb: "esBuffer z = []" using Cons.prems by auto
        let ?z = "z\<lparr>esBuffer := [], tscBuffer := ts, zipped := zipped z @ [(v, t)],
                     zipStatus := (if ts = [] \<and> tscComplete z then Completed else Open)\<rparr>"
        have step: "zip_on z a = ?z"
          using Cons.prems FromES Next Cons eb by (auto simp: checkIterators_def)
        show ?thesis
        proof (cases "ts = [] \<and> tscComplete z")
          case True
          then have "tscArrivals tline = []"
            using Cons.prems FromES Next wellFormed_tsc_ended by auto
          then show ?thesis
            using step True FromES Next Cons eb by (simp add: zip_run_closed)
        next
          case False
          have "zipped (zip_run ?z tline) =
              zipped ?z @ zip (esBuffer ?z @ emittedBy (esArrivals tline))
                              (tscBuffer ?z @ emittedBy (tscArrivals tline))"
            using Cons.prems FromES Next Cons False by (intro Cons.IH) auto
          then show ?thesis using step False FromES Next Cons eb by auto
        qed
      qed
    next
      case Error
      then show ?thesis using Cons.prems FromES by auto
    next
      case Complete
      show ?thesis
      proof (cases "esBuffer z")
        case Nil
        then show ?thesis using Cons.prems FromES Complete by (simp add: zip_run_closed)
      next
        case (Cons b bs)
        then have tb: "tscBuffer z = []" "\<not> tscComplete z" using Cons.prems by auto
        let ?z = "z\<lparr>esComplete := True, zipStatus := Open\<rparr>"
        have step: "zip_on z a = ?z"
          using Cons.prems FromES Complete Cons tb by auto
        have wf: "wellFormed True (tscComplete z) tline"
          using Cons.prems FromES Complete by auto
        have "zipped (zip_run ?z tline) =
              zipped ?z @ zip (esBuffer ?z @ emittedBy (esArrivals tline))
                              (tscBuffer ?z @ emittedBy (tscArrivals tline))"
          using Cons.prems wf Cons by (intro Cons.IH) auto
        then show ?thesis
          using step FromES Complete wellFormed_es_ended[OF wf] by simp
      qed
    qed
  next
    case (FromTSC n)
    show ?thesis
    proof (cases n)
      case (Next v)
      show ?thesis
      proof (cases "esBuffer z")
        case Nil
        let ?z = "z\<lparr>tscBuffer := tscBuffer z @ [v]\<rparr>"
        have step: "zip_on z a = ?z"
          using Cons.prems FromTSC Next Nil by (auto simp: checkIterators_def split: list.splits)
        have "zipped (zip_run ?z tline) =
              zipped ?z @ zip (esBuffer ?z @ emittedBy (esArrivals tline))
                              (tscBuffer ?z @ emittedBy (tscArrivals tline))"
          using Cons.prems FromTSC Next Nil by (intro Cons.IH) auto
        then show ?thesis using step FromTSC Next Nil by simp
      next
        case (Cons b bs)
        then have tb: "tscBuffer z = []" using Cons.prems by auto
        let ?z = "z\<lparr>esBuffer := bs, tscBuffer := [], zipped := zipped z @ [(b, v)],
                     zipStatus := (if bs = [] \<and> esComplete z then Completed else Open)\<rparr>"
        have step: "zip_on z a = ?z"
          using Cons.prems FromTSC Next Cons tb by (auto simp: checkIterators_def)
        show ?thesis
        proof (cases "bs = [] \<and> esComplete z")
          case True
          then have "esArrivals tline = []"
            using Cons.prems FromTSC Next wellFormed_es_ended by auto
          then show ?thesis
            using step True FromTSC Next Cons tb by (simp add: zip_run_closed)
        next
          case False
          have "zipped (zip_run ?z tline) =
              zipped ?z @ zip (esBuffer ?z @ emittedBy (esArrivals tline))
                              (tscBuffer ?z @ emittedBy (tscArrivals tline))"
            using Cons.prems FromTSC Next Cons False by (intro Cons.IH) auto
          then show ?thesis using step False FromTSC Next Cons tb by auto
        qed
      qed
    next
      case Error
      then show ?thesis using Cons.prems FromTSC by auto
    next
      case Complete
      show ?thesis
      proof (cases "tscBuffer z")
        case Nil
        then show ?thesis using Cons.prems FromTSC Complete by (simp add: zip_run_closed)
      next
        case (Cons t ts)
        then have eb: "esBuffer z = []" "\<not> esComplete z" using Cons.prems by auto
        let ?z = "z\<lparr>tscComplete := True, zipStatus := Open\<rparr>"
        have step: "zip_on z a = ?z"
          using Cons.prems FromTSC Complete Cons eb by auto
        have wf: "wellFormed (esComplete z) True tline"
          using Cons.prems FromTSC Complete by auto
        have "zipped (zip_run ?z tline) =
              zipped ?z @ zip (esBuffer ?z @ emittedBy (esArrivals tline))
                              (tscBuffer ?z @ emittedBy (tscArrivals tline))"
          using Cons.prems wf Cons by (intro Cons.IH) auto
        then show ?thesis
          using step FromTSC Complete wellFormed_tsc_ended[OF wf] by simp
      qed
    qed
  qed
qed

lemma zipped_zipStart:
  assumes "wellFormed False False tline"
  shows "zipped (zip_run zipStart tline) =
         zip (emittedBy (esArrivals tline)) (emittedBy (tscArrivals tline))"
  using zip_run_zipped [of zipStart tline] assms by (simp add: zipStart_def)

subsection \<open>The synchronized pairing\<close>

text \<open>
  Claim C1, as the code has it. In the \<^verbatim>\<open>zip\<close> branch, along a well-formed time line
  on which the bundler adapter has emitted \<open>n\<close> results and the type-check adapter has emitted \<open>n\<close>
  results, the stream has emitted \<open>n + 1\<close> responses: the response of the pair given to \<^verbatim>\<open>startWith\<close>, which
  succeeds, and then one response for each position \<open>i\<close>, whose \<^verbatim>\<open>success\<close> is the
  conjunction of the \<open>i\<close>-th bundler result's and the \<open>i\<close>-th type-check result's.
\<close>

theorem zip_pairs_after_start:
  assumes "\<not> useMergeCombine options"
    and "wellFormed False False tline"
    and "length (emittedBy (esArrivals tline)) = n"
    and "length (emittedBy (tscArrivals tline)) = n"
  shows "length (responses (baseSubscriber env options tline)) = n + 1 \<and>
         success (responses (baseSubscriber env options tline) ! 0) \<and>
         (\<forall>i<n. success (responses (baseSubscriber env options tline) ! (i + 1)) =
                  (success (emittedBy (esArrivals tline) ! i) \<and>
                   success (emittedBy (tscArrivals tline) ! i)))"
proof -
  let ?bs = "emittedBy (esArrivals tline)" and ?ts = "emittedBy (tscArrivals tline)"
  have z: "zipped (zip_run zipStart tline) = zip ?bs ?ts"
    using assms(2) by (rule zipped_zipStart)
  have r: "responses (baseSubscriber env options tline) =
           \<lparr>success = True, outfile = mainJs env options\<rparr> #
           map (\<lambda>(b, t). \<lparr>success = (success b \<and> success t), outfile = mainJs env options\<rparr>)
               (zip ?bs ?ts)"
    using assms(1) z by (simp add: baseSubscriber_def zipBranch_def Let_def)
  show ?thesis using assms(3,4) by (simp add: r)
qed

theorem zip_pairs_after_start_witness:
  "\<not> useMergeCombine oneShot \<and> wellFormed False False failThenPass \<and>
   length (emittedBy (esArrivals failThenPass)) = 1 \<and>
   length (emittedBy (tscArrivals failThenPass)) = 1 \<and>
   length (responses (baseSubscriber plainEnv oneShot failThenPass)) = 2 \<and>
   success (responses (baseSubscriber plainEnv oneShot failThenPass) ! 0) \<and>
   \<not> success (responses (baseSubscriber plainEnv oneShot failThenPass) ! 1)"
  using zip_pairs_after_start [of oneShot failThenPass 1 plainEnv]
  by (simp add: oneShot_def failThenPass_def failedBuild_def cleanCheck_def)

text \<open>
  The claim as stated fails: with one result of each adapter the stream emits two
  responses, and the first of them succeeds although the bundler's first result failed.
\<close>

theorem zip_start_is_emitted:
  "length (emittedBy (esArrivals failThenPass)) = 1 \<and>
   length (emittedBy (tscArrivals failThenPass)) = 1 \<and>
   length (responses (baseSubscriber plainEnv oneShot failThenPass)) \<noteq> 1 \<and>
   success (responses (baseSubscriber plainEnv oneShot failThenPass) ! 0) \<noteq>
     (success (emittedBy (esArrivals failThenPass) ! 0) \<and>
      success (emittedBy (tscArrivals failThenPass) ! 0))"
  by (simp add: baseSubscriber_def zipBranch_def oneShot_def zipStart_def checkIterators_def
      failThenPass_def failedBuild_def cleanCheck_def Let_def)

text \<open>
  Claim C10. In the \<^verbatim>\<open>zip\<close> branch the log holds, for the starting pair and then for each
  emitted pair in turn, first the type-check result's message fragments joined with
  newlines, then the bundler result's.
\<close>

theorem zip_logs_tsc_first:
  assumes "\<not> useMergeCombine options" and "wellFormed False False tline"
  shows "consoleLog (baseSubscriber env options tline) =
         concat (map (\<lambda>(buildResults, tscResults).
                        [joinLines (messageFragments tscResults),
                         joinLines (messageFragments buildResults)])
                     ((\<lparr>success = True, messageFragments = [esStarting env]\<rparr>,
                       \<lparr>success = True, messageFragments = [tscStarting env]\<rparr>) #
                      zip (emittedBy (esArrivals tline)) (emittedBy (tscArrivals tline))))"
  using assms zipped_zipStart [of tline]
  by (simp add: baseSubscriber_def zipBranch_def Let_def)

theorem zip_logs_tsc_first_witness:
  "\<not> useMergeCombine oneShot \<and> wellFormed False False failThenPass \<and>
   consoleLog (baseSubscriber plainEnv oneShot failThenPass) =
     [''i TypeScript Compiler Starting...'', ''i ESBuild Compiler Starting...'',
      ''TSC [1] Found 0 errors'', ''ESBuild [2] build failed'']"
  using zip_logs_tsc_first [of oneShot failThenPass plainEnv]
  by (simp add: oneShot_def failThenPass_def failedBuild_def cleanCheck_def esStarting_def
      tscStarting_def plainEnv_def)

subsection \<open>The independent merge\<close>

lemma merge_run_append: "merge_run m (xs @ ys) = merge_run (merge_run m xs) ys"
  by (induction xs arbitrary: m) simp_all

lemma wellFormed_both_ended: "wellFormed True True tline \<Longrightarrow> tline = []"
proof (cases tline)
  case Nil
  then show ?thesis by simp
next
  case (Cons a as)
  assume "wellFormed True True tline"
  then show ?thesis using Cons by (cases a) simp_all
qed

text \<open>
  When a further notification can follow a time line, \<^verbatim>\<open>merge\<close> is still open after
  it and has passed on every value of it.
\<close>

lemma merge_run_open:
  assumes "wellFormed (esDone m) (tscDone m) (tline @ [a])"
    and "mergeStatus m = Open"
    and "\<not> (esDone m \<and> tscDone m)"
  shows "mergeStatus (merge_run m tline) = Open \<and>
         merged (merge_run m tline) = merged m @ arrivedValues tline \<and>
         wellFormed (esDone (merge_run m tline)) (tscDone (merge_run m tline)) [a]"
  using assms
proof (induction tline arbitrary: m)
  case Nil
  then show ?case by simp
next
  case (Cons x tline)
  show ?case
  proof (cases x)
    case (FromES n)
    then show ?thesis using Cons.prems Cons.IH [of "merge_on m x"]
      by (cases n) (auto split: if_splits dest: wellFormed_both_ended)
  next
    case (FromTSC n)
    then show ?thesis using Cons.prems Cons.IH [of "merge_on m x"]
      by (cases n) (auto split: if_splits dest: wellFormed_both_ended)
  qed
qed

text \<open>
  Claim C7. In the \<^verbatim>\<open>merge\<close> branch a result of either adapter is answered at once by
  one more response, whose \<^verbatim>\<open>success\<close> is that of the result that has just arrived,
  whatever the other adapter reported before. So a failing type-check result, with the
  bundler silent, gives a failing response right after the starting one.
\<close>

theorem merge_emits_each_arrival:
  assumes "useMergeCombine options"
    and "wellFormed False False (tline @ [a])"
    and "a = FromES (Next res) \<or> a = FromTSC (Next res)"
  shows "responses (baseSubscriber env options (tline @ [a])) =
         responses (baseSubscriber env options tline) @
         [\<lparr>success = success res,
           outfile = Some (pathJoin env (outputPath options) ''main.js'')\<rparr>]"
proof -
  let ?m = "merge_run mergeStart tline"
  have inv: "mergeStatus ?m = Open \<and> wellFormed (esDone ?m) (tscDone ?m) [a]"
    using merge_run_open [of mergeStart tline a] assms(2) by (simp add: mergeStart_def)
  have "merged (merge_on ?m a) = merged ?m @ [res]"
    using inv assms(3) by auto
  then show ?thesis
    using assms(1)
    by (simp add: baseSubscriber_def mergeBranch_def Let_def merge_run_append mainJs_def)
qed

theorem merge_emits_each_arrival_witness:
  "useMergeCombine (oneShot\<lparr>useMergeCombine := True\<rparr>) \<and>
   wellFormed False False
     ([] @ [FromTSC (Next \<lparr>success = False, messageFragments = [''TS2322'']\<rparr>)]) \<and>
   responses (baseSubscriber plainEnv (oneShot\<lparr>useMergeCombine := True\<rparr>)
     ([] @ [FromTSC (Next \<lparr>success = False, messageFragments = [''TS2322'']\<rparr>)])) =
   [\<lparr>success = True, outfile = Some ''dist/main.js''\<rparr>,
    \<lparr>success = False, outfile = Some ''dist/main.js''\<rparr>]"
  using merge_emits_each_arrival [of "oneShot\<lparr>useMergeCombine := True\<rparr>" "[]"
      "FromTSC (Next \<lparr>success = False, messageFragments = [''TS2322'']\<rparr>)"
      "\<lparr>success = False, messageFragments = [''TS2322'']\<rparr>" plainEnv]
  by (simp add: oneShot_def baseSubscriber_def mergeBranch_def mergeStart_def mainJs_def
      plainEnv_def)

subsection \<open>The output file\<close>

text \<open>
  Claim C9. Every response of the \<^verbatim>\<open>zip\<close> branch and of the \<^verbatim>\<open>merge\<close> branch carries the
  output path joined with \<^verbatim>\<open>main.js\<close>, whether it succeeds or not. In the stream of the
  bundler alone the only response without an output file is the one that \<^verbatim>\<open>catchError\<close>
  puts in place of an error.
\<close>

theorem outfile_is_main_js:
  "(\<forall>r \<in> set (responses (baseSubscriber env options tline)).
      outfile r = Some (pathJoin env (outputPath options) ''main.js'')) \<and>
   (\<forall>r \<in> set (responses (baseESBuildSubscriber env options ns)).
      outfile r = Some (pathJoin env (outputPath options) ''main.js'') \<or>
      (r = \<lparr>success = False, outfile = None\<rparr> \<and>
       snd (observe (esBuildSubscriber env 1 ns)) = Failed))"
  by (auto simp: baseSubscriber_def zipBranch_def mergeBranch_def baseESBuildSubscriber_def
      mainJs_def Let_def split: prod.splits if_splits)

theorem outfile_is_main_js_witness:
  "map outfile (responses (baseSubscriber plainEnv oneShot failThenPass)) =
     [Some ''dist/main.js'', Some ''dist/main.js''] \<and>
   map success (responses (baseSubscriber plainEnv oneShot failThenPass)) = [True, False] \<and>
   responses (baseESBuildSubscriber plainEnv oneShot [Error]) =
     [\<lparr>success = False, outfile = None\<rparr>]"
  using outfile_is_main_js [of plainEnv oneShot failThenPass "[Error]"]
  by (simp add: baseSubscriber_def zipBranch_def oneShot_def zipStart_def checkIterators_def
      failThenPass_def failedBuild_def cleanCheck_def Let_def mainJs_def plainEnv_def
      baseESBuildSubscriber_def)

subsection \<open>The one-shot mode\<close>

lemma observe_Next: "observe (Next v # ns) = (v # fst (observe ns), snd (observe ns))"
  by (simp split: prod.splits)

lemma tscSubscriber_on_Next:
  "snd (tscSubscriber_on env st (Next cr)) = [] \<or>
   (\<exists>r. snd (tscSubscriber_on env st (Next cr)) = [Next r])"
  by (cases st) (auto simp: bufferUntil_on_def Let_def)

text \<open>As long as no source has ended, every stream of the executor is open.\<close>

lemma esBuildSubscriber_open:
  "list_all isNext tline \<Longrightarrow> snd (observe (esBuildSubscriber env c (esArrivals tline))) = Open"
proof (induction tline arbitrary: c)
  case Nil
  then show ?case by simp
next
  case (Cons a tline)
  then show ?case
    by (cases a rule: isNext.cases) (auto simp: observe_Next simp del: observe.simps(2))
qed

lemma adapters_all_Next:
  "list_all isNext tline \<Longrightarrow> list_all isNext (adapters env c st tline)"
proof (induction tline arbitrary: c st)
  case Nil
  then show ?case by simp
next
  case (Cons a tline)
  show ?case
  proof (cases a rule: isNext.cases)
    case (1 v)
    then show ?thesis using Cons by (cases v) simp
  next
    case (2 v)
    obtain st' rs where step: "tscSubscriber_on env st (Next v) = (st', rs)"
      by (cases "tscSubscriber_on env st (Next v)")
    then have "rs = [] \<or> (\<exists>r. rs = [Next r])"
      using tscSubscriber_on_Next [of env st v] by simp
    then show ?thesis using 2 step Cons by auto
  qed (use Cons.prems in simp_all)
qed

lemma zip_run_open:
  "list_all isNext tline \<Longrightarrow> zipStatus z = Open \<Longrightarrow> \<not> esComplete z \<Longrightarrow>
   \<not> tscComplete z \<Longrightarrow> zipStatus (zip_run z tline) = Open"
proof (induction tline arbitrary: z)
  case Nil
  then show ?case by simp
next
  case (Cons a tline)
  have "zipStatus (zip_on z a) = Open \<and> \<not> esComplete (zip_on z a) \<and>
        \<not> tscComplete (zip_on z a)"
    using Cons.prems
    by (cases a rule: isNext.cases) (auto simp: checkIterators_def split: list.splits)
  then show ?case using Cons by simp
qed

lemma merge_run_all_Next:
  "list_all isNext tline \<Longrightarrow> mergeStatus m = Open \<Longrightarrow> \<not> esDone m \<Longrightarrow> \<not> tscDone m \<Longrightarrow>
   mergeStatus (merge_run m tline) = Open"
proof (induction tline arbitrary: m)
  case Nil
  then show ?case by simp
next
  case (Cons a tline)
  have "mergeStatus (merge_on m a) = Open \<and> \<not> esDone (merge_on m a) \<and>
        \<not> tscDone (merge_on m a)"
    using Cons.prems by (cases a rule: isNext.cases) auto
  then show ?case using Cons by simp
qed

lemma executorStream_open:
  assumes "list_all isNext tline"
  shows "runStatus (executorStream env options tline) = Open"
proof (cases "skipTypeCheck options")
  case True
  then show ?thesis
    using esBuildSubscriber_open [OF assms, of env 1]
    by (cases "observe (esBuildSubscriber env 1 (esArrivals tline))")
       (simp add: executorStream_def baseESBuildSubscriber_def)
next
  case False
  have n: "list_all isNext (adapters env 1 (1, []) tline)"
    using assms by (rule adapters_all_Next)
  show ?thesis
    using False zip_run_open [OF n, of zipStart] merge_run_all_Next [OF n, of mergeStart]
    by (simp add: executorStream_def baseSubscriber_def zipBranch_def mergeBranch_def
        zipStart_def mergeStart_def Let_def)
qed

text \<open>
  Claim C2, as the code has it. With \<^verbatim>\<open>watch\<close> off the executor returns one promise. The
  promise is settled by the end of the stream, not by its first value: it is pending
  while the stream is open, it resolves with the last response when the stream completes
  (with \<^verbatim>\<open>undefined\<close> when there was none), and it rejects when the stream fails. In
  particular it is pending as long as no source has ended, whatever the sources have
  delivered.
\<close>

theorem one_shot_resolves_last:
  assumes "\<not> watch options"
  shows "buildExecutor env options tline =
         Promised
           (case runStatus (executorStream env options tline) of
              Open \<Rightarrow> Pending
            | Failed \<Rightarrow> Rejected
            | Completed \<Rightarrow>
                Resolved
                  (if responses (executorStream env options tline) = [] then None
                   else Some (last (responses (executorStream env options tline))))) \<and>
         (list_all isNext tline \<longrightarrow> buildExecutor env options tline = Promised Pending)"
proof -
  have eq: "buildExecutor env options tline =
            Promised (toPromise (executorStream env options tline))"
    using assms by (simp add: buildExecutor_def executorStream_def)
  show ?thesis
    using executorStream_open [of tline env options]
    by (auto simp: eq toPromise_def split: status.splits)
qed

theorem one_shot_resolves_last_witness:
  "\<not> watch oneShot \<and>
   buildExecutor plainEnv oneShot rawFailThenPass =
     Promised (Resolved (Some \<lparr>success = False, outfile = Some ''dist/main.js''\<rparr>))"
proof -
  have w: "\<not> watch oneShot" by (simp add: oneShot_def)
  have st: "runStatus (executorStream plainEnv oneShot rawFailThenPass) = Completed"
    by code_simp
  have rs: "responses (executorStream plainEnv oneShot rawFailThenPass) =
            [\<lparr>success = True, outfile = Some ''dist/main.js''\<rparr>,
             \<lparr>success = False, outfile = Some ''dist/main.js''\<rparr>]"
    by code_simp
  show ?thesis
    using one_shot_resolves_last [OF w, of plainEnv rawFailThenPass] w by (simp add: st rs)
qed

text \<open>
  The claim as stated fails. In the run \<open>rawFailThenPass\<close> the first response of the
  stream is the starting one, which succeeds, and the promise resolves with the second
  response, which fails. After the first two notifications of that run the stream has
  emitted two responses and the promise is still pending.
\<close>

theorem one_shot_waits_for_the_end:
  "buildExecutor plainEnv oneShot rawFailThenPass =
     Promised (Resolved (Some \<lparr>success = False, outfile = Some ''dist/main.js''\<rparr>)) \<and>
   responses (executorStream plainEnv oneShot rawFailThenPass) ! 0 =
     \<lparr>success = True, outfile = Some ''dist/main.js''\<rparr> \<and>
   buildExecutor plainEnv oneShot (take 2 rawFailThenPass) = Promised Pending \<and>
   length (responses (executorStream plainEnv oneShot (take 2 rawFailThenPass))) = 2"
  by code_simp

subsection \<open>Errors of the bundler\<close>

text \<open>
  Claim C3 fails on the code. Only \<^verbatim>\<open>baseESBuildSubscriber\<close>, the stream used with
  \<^verbatim>\<open>skipTypeCheck\<close>, ends in \<^verbatim>\<open>catchError\<close>. When the bundler's stream fails and the type
  check is not skipped, the error passes through \<^verbatim>\<open>zip\<close> or \<^verbatim>\<open>merge\<close>: the promise is
  rejected, and in watch mode the iteration fails after the starting response. With
  \<^verbatim>\<open>skipTypeCheck\<close> the same error becomes the response without an output file.
\<close>

theorem bundler_error_escapes:
  "buildExecutor plainEnv oneShot [FromES Error] = Promised Rejected \<and>
   buildExecutor plainEnv (oneShot\<lparr>useMergeCombine := True\<rparr>) [FromES Error] =
     Promised Rejected \<and>
   buildExecutor plainEnv (oneShot\<lparr>watch := True\<rparr>) [FromES Error] =
     Iterated [\<lparr>success = True, outfile = Some ''dist/main.js''\<rparr>] Failed \<and>
   buildExecutor plainEnv (oneShot\<lparr>skipTypeCheck := True\<rparr>) [FromES Error] =
     Promised (Resolved (Some \<lparr>success = False, outfile = None\<rparr>))"
  by (simp add: buildExecutor_def oneShot_def baseSubscriber_def zipBranch_def mergeBranch_def
      zipStart_def mergeStart_def toPromise_def eachValueFrom_def baseESBuildSubscriber_def
      mainJs_def plainEnv_def Let_def)

subsection \<open>The rebuild counter\<close>

text \<open>
  The counter is incremented before the prefix is computed: from the counter \<open>c\<close>, the
  result of the event at position \<open>i\<close> carries the prefix of \<open>c + i + 1\<close>.
\<close>

lemma esBuildSubscriber_labels:
  "i < length evs \<Longrightarrow>
   esBuildSubscriber env c (map Next evs) ! i =
     Next \<lparr>success = (buildFailure (snd (evs ! i)) = None),
           messageFragments =
             collectESBuildRunnerMessages env (snd (evs ! i))
               (prefixESBuild env (c + i + 1) (fst (evs ! i)))\<rparr>"
proof (induction evs arbitrary: c i)
  case Nil
  then show ?case by simp
next
  case (Cons ev evs)
  show ?case
  proof (cases i)
    case 0
    then show ?thesis by (cases ev) simp
  next
    case (Suc j)
    then show ?thesis using Cons.prems Cons.IH [of j "c + 1"] by (cases ev) simp
  qed
qed

text \<open>
  Claim C4 fails on the code. The counter starts at 1 and is incremented before the
  prefix of the same event is computed, so the prefix of the first bundler event carries
  the number 2, not 1.
\<close>

theorem first_build_is_labelled_2:
  "emittedBy (esBuildSubscriber plainEnv 1
     [Next (''9:00:00 AM'', \<lparr>buildResult = (), buildFailure = None\<rparr>)]) =
   [\<lparr>success = True, messageFragments = [''nx-plugin-esbuild ESBuild [2] 9:00:00 AM ok'']\<rparr>]"
  by (simp add: plainEnv_def prefixESBuild_def showNat.simps)

subsection \<open>The marker of a completed cycle\<close>

text \<open>
  The matcher is the regular expression: a string matches exactly when it contains
  \<open>Found\<close>, one space character, any number of digits, one space character and \<open>error\<close>.
\<close>

lemma startsWith_iff: "startsWith p s = Some r \<longleftrightarrow> s = p @ r"
  by (induction p s rule: startsWith.induct) auto

lemma startsWith_None_iff: "startsWith p s \<noteq> None \<longleftrightarrow> (\<exists>r. s = p @ r)"
  using startsWith_iff [of p s] by (cases "startsWith p s") auto

lemma space_not_digit: "isSpace c \<Longrightarrow> \<not> isDigit c"
  by (auto simp: isSpace_def isDigit_def Let_def)

lemma foundAt_iff:
  "foundAt s \<longleftrightarrow>
   (\<exists>w1 ds w2 post. s = ''Found'' @ [w1] @ ds @ [w2] @ ''error'' @ post \<and>
      isSpace w1 \<and> (\<forall>d \<in> set ds. isDigit d) \<and> isSpace w2)"
proof
  assume "foundAt s"
  then obtain r1 where r1: "startsWith ''Found'' s = Some r1"
    by (auto simp: foundAt_def split: option.splits)
  with \<open>foundAt s\<close> obtain w1 r2 where r2: "r1 = w1 # r2" "isSpace w1"
    by (auto simp: foundAt_def split: list.splits)
  with \<open>foundAt s\<close> r1 obtain w2 r3 where r3: "dropWhile isDigit r2 = w2 # r3" "isSpace w2"
      "startsWith ''error'' r3 \<noteq> None"
    by (auto simp: foundAt_def split: list.splits)
  then obtain post where post: "r3 = ''error'' @ post"
    using startsWith_None_iff by blast
  have "r2 = takeWhile isDigit r2 @ w2 # r3"
    using r3(1) takeWhile_dropWhile_id [of isDigit r2] by simp
  moreover have "s = ''Found'' @ r1" using r1 startsWith_iff by blast
  ultimately have "s = ''Found'' @ [w1] @ takeWhile isDigit r2 @ [w2] @ ''error'' @ post"
    using r2(1) post by simp
  moreover have "\<forall>d \<in> set (takeWhile isDigit r2). isDigit d"
    by (auto dest: set_takeWhileD)
  ultimately show "\<exists>w1 ds w2 post. s = ''Found'' @ [w1] @ ds @ [w2] @ ''error'' @ post \<and>
      isSpace w1 \<and> (\<forall>d \<in> set ds. isDigit d) \<and> isSpace w2"
    using r2(2) r3(2) by blast
next
  assume "\<exists>w1 ds w2 post. s = ''Found'' @ [w1] @ ds @ [w2] @ ''error'' @ post \<and>
      isSpace w1 \<and> (\<forall>d \<in> set ds. isDigit d) \<and> isSpace w2"
  then obtain w1 ds w2 post where s: "s = ''Found'' @ [w1] @ ds @ [w2] @ ''error'' @ post"
    and w: "isSpace w1" "\<forall>d \<in> set ds. isDigit d" "isSpace w2"
    by blast
  have "dropWhile isDigit (ds @ w2 # ''error'' @ post) = w2 # ''error'' @ post"
    using w(2,3) space_not_digit by (simp add: dropWhile_append3)
  then show "foundAt s"
    using s w(1,3) by (simp add: foundAt_def)
qed

lemma foundErrorCount_suffix:
  "foundErrorCount s \<longleftrightarrow> (\<exists>pre suf. s = pre @ suf \<and> foundAt suf)"
proof (induction s)
  case Nil
  then show ?case by simp
next
  case (Cons c cs)
  show ?case
  proof
    assume "foundErrorCount (c # cs)"
    then consider "foundAt (c # cs)" | "foundErrorCount cs" by auto
    then show "\<exists>pre suf. c # cs = pre @ suf \<and> foundAt suf"
    proof cases
      case 1
      then have "c # cs = [] @ (c # cs) \<and> foundAt (c # cs)" by simp
      then show ?thesis by blast
    next
      case 2
      then obtain pre suf where "cs = pre @ suf" "foundAt suf" using Cons.IH by blast
      then have "c # cs = (c # pre) @ suf \<and> foundAt suf" by simp
      then show ?thesis by blast
    qed
  next
    assume "\<exists>pre suf. c # cs = pre @ suf \<and> foundAt suf"
    then obtain pre suf where ps: "c # cs = pre @ suf" "foundAt suf" by blast
    show "foundErrorCount (c # cs)"
    proof (cases pre)
      case Nil
      then have "foundAt (c # cs)" using ps by simp
      then show ?thesis by simp
    next
      case (Cons p pre')
      then have "cs = pre' @ suf" using ps by simp
      then show ?thesis using ps(2) Cons.IH by auto
    qed
  qed
qed

lemma foundErrorCount_iff:
  "foundErrorCount s \<longleftrightarrow>
   (\<exists>pre w1 ds w2 post. s = pre @ ''Found'' @ [w1] @ ds @ [w2] @ ''error'' @ post \<and>
      isSpace w1 \<and> (\<forall>d \<in> set ds. isDigit d) \<and> isSpace w2)"
  unfolding foundErrorCount_suffix foundAt_iff by blast

lemma foundErrorCount_Nil: "\<not> foundErrorCount []"
  by (simp add: foundAt_def)

subsection \<open>The cycle buffer\<close>

lemma bufferUntil_Cons:
  "bufferUntil p acc (x # xs) =
     (if p x then ((acc @ [x]) # fst (bufferUntil p [] xs), snd (bufferUntil p [] xs))
      else bufferUntil p (acc @ [x]) xs)"
  by (simp add: bufferUntil_on_def split: prod.splits)

lemma bufferUntil_count:
  "length (fst (bufferUntil p acc xs)) = length (filter p xs)"
  by (induction xs arbitrary: acc) (simp_all add: bufferUntil_Cons del: bufferUntil.simps(2))

lemma bufferUntil_concat:
  "concat (fst (bufferUntil p acc xs)) @ snd (bufferUntil p acc xs) = acc @ xs"
  by (induction xs arbitrary: acc) (simp_all add: bufferUntil_Cons del: bufferUntil.simps(2))

lemma bufferUntil_rest:
  "\<forall>x \<in> set acc. \<not> p x \<Longrightarrow> y \<in> set (snd (bufferUntil p acc xs)) \<Longrightarrow> \<not> p y"
proof (induction xs arbitrary: acc)
  case Nil
  then show ?case by simp
next
  case (Cons x xs)
  show ?case
  proof (cases "p x")
    case True
    then have "y \<in> set (snd (bufferUntil p [] xs))"
      using Cons.prems(2) by (simp add: bufferUntil_Cons del: bufferUntil.simps(2))
    then show ?thesis using Cons.IH [of "[]"] by simp
  next
    case False
    then have "y \<in> set (snd (bufferUntil p (acc @ [x]) xs))"
      using Cons.prems(2) by (simp add: bufferUntil_Cons del: bufferUntil.simps(2))
    moreover have "\<forall>z \<in> set (acc @ [x]). \<not> p z" using False Cons.prems(1) by simp
    ultimately show ?thesis using Cons.IH [of "acc @ [x]"] by blast
  qed
qed

lemma bufferUntil_batch:
  "\<forall>x \<in> set acc. \<not> p x \<Longrightarrow> b \<in> set (fst (bufferUntil p acc xs)) \<Longrightarrow>
   b \<noteq> [] \<and> p (last b) \<and> (\<forall>x \<in> set (butlast b). \<not> p x)"
proof (induction xs arbitrary: acc)
  case Nil
  then show ?case by simp
next
  case (Cons x xs)
  show ?case
  proof (cases "p x")
    case True
    then have "b = acc @ [x] \<or> b \<in> set (fst (bufferUntil p [] xs))"
      using Cons.prems(2) by (simp add: bufferUntil_Cons del: bufferUntil.simps(2))
    then show ?thesis
    proof
      assume "b = acc @ [x]"
      then show ?thesis using True Cons.prems(1) by simp
    next
      assume "b \<in> set (fst (bufferUntil p [] xs))"
      then show ?thesis using Cons.IH [of "[]"] by simp
    qed
  next
    case False
    then have "b \<in> set (fst (bufferUntil p (acc @ [x]) xs))"
      using Cons.prems(2) by (simp add: bufferUntil_Cons del: bufferUntil.simps(2))
    moreover have "\<forall>y \<in> set (acc @ [x]). \<not> p y" using False Cons.prems(1) by simp
    ultimately show ?thesis using Cons.IH [of "acc @ [x]"] by blast
  qed
qed

lemma bufferUntil_snoc:
  "bufferUntil p acc (xs @ [x]) =
     (if p x then (fst (bufferUntil p acc xs) @ [snd (bufferUntil p acc xs) @ [x]], [])
      else (fst (bufferUntil p acc xs), snd (bufferUntil p acc xs) @ [x]))"
proof (induction xs arbitrary: acc)
  case Nil
  then show ?case by (simp add: bufferUntil_on_def)
next
  case (Cons y ys)
  then show ?case by (simp add: bufferUntil_Cons del: bufferUntil.simps(2))
qed

text \<open>
  Claim C5, for the cycle buffer as the specification describes it. A fragment \<open>v\<close> that
  arrives after the fragments \<open>frags\<close> closes a batch exactly when \<open>v\<close> carries the marker
  in its \<^verbatim>\<open>info\<close> or \<^verbatim>\<open>error\<close> text; the batch is then what was accumulated since the
  batch before, with \<open>v\<close> at its end, and the accumulator is empty afterwards. So there
  are as many batches as marker fragments, the batches and the accumulator together are
  the fragments in their order, every batch ends with a marker fragment and holds no
  other one, and the accumulator holds none.
\<close>

theorem cycle_buffer_batches:
  fixes frags :: "TscChecked list"
  shows "bufferUntil cycleEnd [] (frags @ [v]) =
           (if cycleEnd v
            then (fst (bufferUntil cycleEnd [] frags) @
                    [snd (bufferUntil cycleEnd [] frags) @ [v]], [])
            else (fst (bufferUntil cycleEnd [] frags),
                  snd (bufferUntil cycleEnd [] frags) @ [v])) \<and>
         length (fst (bufferUntil cycleEnd [] frags)) = length (filter cycleEnd frags) \<and>
         concat (fst (bufferUntil cycleEnd [] frags)) @ snd (bufferUntil cycleEnd [] frags) =
           frags \<and>
         (\<forall>b \<in> set (fst (bufferUntil cycleEnd [] frags)).
            b \<noteq> [] \<and> cycleEnd (last b) \<and> (\<forall>x \<in> set (butlast b). \<not> cycleEnd x)) \<and>
         (\<forall>x \<in> set (snd (bufferUntil cycleEnd [] frags)). \<not> cycleEnd x)"
proof (intro conjI)
  show "bufferUntil cycleEnd [] (frags @ [v]) =
           (if cycleEnd v
            then (fst (bufferUntil cycleEnd [] frags) @
                    [snd (bufferUntil cycleEnd [] frags) @ [v]], [])
            else (fst (bufferUntil cycleEnd [] frags),
                  snd (bufferUntil cycleEnd [] frags) @ [v]))"
    by (rule bufferUntil_snoc)
  show "length (fst (bufferUntil cycleEnd [] frags)) = length (filter cycleEnd frags)"
    by (rule bufferUntil_count)
  show "concat (fst (bufferUntil cycleEnd [] frags)) @ snd (bufferUntil cycleEnd [] frags) =
           frags"
    using bufferUntil_concat [of cycleEnd "[]" frags] by simp
  show "\<forall>b \<in> set (fst (bufferUntil cycleEnd [] frags)).
            b \<noteq> [] \<and> cycleEnd (last b) \<and> (\<forall>x \<in> set (butlast b). \<not> cycleEnd x)"
  proof
    fix b assume "b \<in> set (fst (bufferUntil cycleEnd [] frags))"
    then show "b \<noteq> [] \<and> cycleEnd (last b) \<and> (\<forall>x \<in> set (butlast b). \<not> cycleEnd x)"
      using bufferUntil_batch [of "[]" cycleEnd b frags] by simp
  qed
  show "\<forall>x \<in> set (snd (bufferUntil cycleEnd [] frags)). \<not> cycleEnd x"
    using bufferUntil_rest [of "[]" cycleEnd _ frags] by auto
qed

theorem cycle_buffer_batches_witness:
  "length (fst (bufferUntil cycleEnd [] seenFragments)) = 1 \<and>
   length (snd (bufferUntil cycleEnd [] seenFragments)) = 1 \<and>
   bufferUntil cycleEnd [] (seenFragments @ [cleanMarker]) =
     (fst (bufferUntil cycleEnd [] seenFragments) @
        [snd (bufferUntil cycleEnd [] seenFragments) @ [cleanMarker]], [])"
proof -
  have n: "length (filter cycleEnd seenFragments) = 1" by code_simp
  have l: "length seenFragments = 3" by code_simp
  have b: "map length (fst (bufferUntil cycleEnd [] seenFragments)) = [2]" by code_simp
  have m: "cycleEnd cleanMarker" by code_simp
  note t = cycle_buffer_batches [of seenFragments cleanMarker]
  have c: "length (concat (fst (bufferUntil cycleEnd [] seenFragments))) = 2"
    using b by (simp add: length_concat)
  have "length (concat (fst (bufferUntil cycleEnd [] seenFragments)) @
                snd (bufferUntil cycleEnd [] seenFragments)) = 3"
    using t l by simp
  then have r: "length (snd (bufferUntil cycleEnd [] seenFragments)) = 1"
    using c by simp
  show ?thesis using t n m r by simp
qed

subsection \<open>The result of a cycle\<close>

lemma foldBatch_success: "success (foldBatch vals) = (\<forall>v \<in> set vals. \<not> hasErrors v)"
  by (auto simp: foldBatch_def find_None_iff)

lemma hasErrors_checkFragment:
  "hasErrors (checkFragment env n (clock, res)) =
     (truthy (error res) \<or>
      (\<exists>s. info res = Some s \<and> foundErrorCount s \<and> \<not> includesStr s ''Found 0 errors''))"
  using foundErrorCount_Nil by (cases "info res") (auto simp: checkFragment_def)

lemma marker_examples:
  "foundErrorCount ''Found 2 errors''"
  "\<not> includesStr ''Found 2 errors'' ''Found 0 errors''"
  "foundErrorCount ''Found 0 errors''"
  "includesStr ''Found 0 errors'' ''Found 0 errors''"
  by (simp_all add: foundAt_def isSpace_def isDigit_def)

text \<open>
  Claim C6, as the code has it. The result of a batch succeeds exactly when no fragment
  of the batch has \<^verbatim>\<open>hasErrors\<close>. A fragment has \<^verbatim>\<open>hasErrors\<close> exactly when its \<^verbatim>\<open>error\<close>
  is a non-empty string, or its \<^verbatim>\<open>info\<close> matches the marker and does not contain the
  text \<^verbatim>\<open>Found 0 errors\<close>. A batch that is the one fragment \<^verbatim>\<open>Found 0 errors\<close> without an
  \<^verbatim>\<open>error\<close> succeeds; a batch that contains the fragment \<^verbatim>\<open>Found 2 errors\<close> fails.
\<close>

theorem batch_success:
  "success (foldBatch vals) = (\<forall>v \<in> set vals. \<not> hasErrors v) \<and>
   hasErrors (checkFragment env n (clock, res)) =
     (truthy (error res) \<or>
      (\<exists>s. info res = Some s \<and> foundErrorCount s \<and> \<not> includesStr s ''Found 0 errors'')) \<and>
   (info res = Some ''Found 0 errors'' \<and> error res = None \<longrightarrow>
      success (foldBatch [checkFragment env n (clock, res)])) \<and>
   (info res = Some ''Found 2 errors'' \<and> checkFragment env n (clock, res) \<in> set vals \<longrightarrow>
      \<not> success (foldBatch vals))"
proof -
  have a: "info res = Some ''Found 0 errors'' \<and> error res = None \<longrightarrow>
      \<not> hasErrors (checkFragment env n (clock, res))"
    unfolding hasErrors_checkFragment using marker_examples by (auto simp: truthy_def)
  have b: "info res = Some ''Found 2 errors'' \<longrightarrow> hasErrors (checkFragment env n (clock, res))"
    unfolding hasErrors_checkFragment using marker_examples by auto
  show ?thesis
    using a b foldBatch_success hasErrors_checkFragment [of env n clock res] by auto
qed

theorem batch_success_witness:
  "success (foldBatch [checkFragment plainEnv 1
      (''9:00:00 AM'', \<lparr>info = Some ''Found 0 errors'', error = None, ended = None\<rparr>)]) \<and>
   \<not> success (foldBatch [checkFragment plainEnv 1
      (''9:00:00 AM'', \<lparr>info = Some ''Found 2 errors'', error = None, ended = None\<rparr>)])"
  using batch_success [of "[]" plainEnv 1 "''9:00:00 AM''"
      "\<lparr>info = Some ''Found 0 errors'', error = None, ended = None\<rparr>"]
    batch_success [of "[checkFragment plainEnv 1
      (''9:00:00 AM'', \<lparr>info = Some ''Found 2 errors'', error = None, ended = None\<rparr>)]"
      plainEnv 1 "''9:00:00 AM''"
      "\<lparr>info = Some ''Found 2 errors'', error = None, ended = None\<rparr>"]
  by (simp add: foundAt_def isSpace_def isDigit_def truthy_def)

text \<open>
  The claim as stated fails. The fragment \<^verbatim>\<open>Found 0 error\<close> matches the marker with the
  count 0 and has no \<^verbatim>\<open>error\<close>, so in the words of the claim it has no errors; the code
  looks for the text \<^verbatim>\<open>Found 0 errors\<close>, does not find it, and sets \<^verbatim>\<open>hasErrors\<close>.
\<close>

theorem found_0_error_counts_as_error:
  "hasErrors (checkFragment plainEnv 1
      (''9:00:00 AM'', \<lparr>info = Some ''Found 0 error'', error = None, ended = None\<rparr>)) \<and>
   \<not> specHasErrors \<lparr>info = Some ''Found 0 error'', error = None, ended = None\<rparr> \<and>
   \<not> success (foldBatch [checkFragment plainEnv 1
      (''9:00:00 AM'', \<lparr>info = Some ''Found 0 error'', error = None, ended = None\<rparr>)])"
  by (simp add: checkFragment_def specHasErrors_def countAt_def foundAt_def isSpace_def
      isDigit_def foldBatch_def)

subsection \<open>A failure of the type checker\<close>

lemma tscSubscriber_on_no_Error: "Error \<notin> set (snd (tscSubscriber_on env st n))"
  by (cases "(env, st, n)" rule: tscSubscriber_on.cases)
     (auto simp: bufferUntil_on_def Let_def)

lemma tscSubscriber_no_Error: "Error \<notin> set (tscSubscriber env st ns)"
proof (induction ns arbitrary: st)
  case Nil
  then show ?case by simp
next
  case (Cons n ns)
  obtain st' rs where step: "tscSubscriber_on env st n = (st', rs)"
    by (cases "tscSubscriber_on env st n")
  then have "Error \<notin> set rs" using tscSubscriber_on_no_Error [of env st n] by simp
  then show ?case using step Cons.IH [of st'] by simp
qed

lemma adapters_no_tsc_Error: "FromTSC Error \<notin> set (adapters env c st tline)"
proof (induction tline arbitrary: c st)
  case Nil
  then show ?case by simp
next
  case (Cons a tline)
  show ?case
  proof (cases a)
    case (FromES n)
    then show ?thesis using Cons.IH by (auto split: prod.splits)
  next
    case (FromTSC n)
    obtain st' rs where step: "tscSubscriber_on env st n = (st', rs)"
      by (cases "tscSubscriber_on env st n")
    then have "Error \<notin> set rs" using tscSubscriber_on_no_Error [of env st n] by simp
    then show ?thesis using FromTSC step Cons.IH [of c st'] by auto
  qed
qed

lemma tsc_failure_observed:
  assumes "snd (observe ns) = Failed"
  shows "observe (tscSubscriber env st ns) =
         (emittedBy (tscSubscriber env st (map Next (emittedBy ns))) @
            [\<lparr>success = False, messageFragments = []\<rparr>], Completed)"
  using assms
proof (induction ns arbitrary: st)
  case Nil
  then show ?case by simp
next
  case (Cons n ns)
  show ?case
  proof (cases n)
    case (Next cr)
    obtain st' rs where step: "tscSubscriber_on env st (Next cr) = (st', rs)"
      by (cases "tscSubscriber_on env st (Next cr)")
    have fl: "snd (observe ns) = Failed" using Cons.prems Next by (simp split: prod.splits)
    have rs: "rs = [] \<or> (\<exists>r. rs = [Next r])"
      using tscSubscriber_on_Next [of env st cr] step by simp
    then show ?thesis
    proof
      assume "rs = []"
      then show ?thesis using Next step Cons.IH [OF fl, of st'] by simp
    next
      assume "\<exists>r. rs = [Next r]"
      then obtain r where "rs = [Next r]" by blast
      then show ?thesis using Next step Cons.IH [OF fl, of st']
        by (simp add: emittedBy_def split: prod.splits)
    qed
  next
    case Error
    then show ?thesis by (cases st) simp
  next
    case Complete
    then show ?thesis using Cons.prems by simp
  qed
qed

text \<open>
  Claim C8. The type-check adapter never delivers an error, alone or on a time line
  beside the bundler adapter. When the type checker's stream fails, the adapter delivers
  the results of the cycles completed before the failure, then the one result
  \<^verbatim>\<open>{success: false, messageFragments: []}\<close>, and completes.
\<close>

theorem tsc_error_becomes_result:
  "Error \<notin> set (tscSubscriber env st ns) \<and>
   FromTSC Error \<notin> set (adapters env c st tline) \<and>
   (snd (observe ns) = Failed \<longrightarrow>
      observe (tscSubscriber env st ns) =
        (emittedBy (tscSubscriber env st (map Next (emittedBy ns))) @
           [\<lparr>success = False, messageFragments = []\<rparr>], Completed))"
  using tscSubscriber_no_Error adapters_no_tsc_Error tsc_failure_observed by blast

theorem tsc_error_becomes_result_witness:
  "snd (observe crashAfterCycle) = Failed \<and>
   observe (tscSubscriber plainEnv (1, []) crashAfterCycle) =
     ([\<lparr>success = False,
        messageFragments =
          [''nx-plugin-esbuild TSC [1] 9:00:01 AM a.ts: TS2322'',
           ''nx-plugin-esbuild TSC [1] 9:00:02 AM Found 1 error.'']\<rparr>,
       \<lparr>success = False, messageFragments = []\<rparr>], Completed)"
proof -
  have f: "snd (observe crashAfterCycle) = Failed" by code_simp
  have e: "emittedBy (tscSubscriber plainEnv (1, []) (map Next (emittedBy crashAfterCycle))) =
           [\<lparr>success = False,
              messageFragments =
                [''nx-plugin-esbuild TSC [1] 9:00:01 AM a.ts: TS2322'',
                 ''nx-plugin-esbuild TSC [1] 9:00:02 AM Found 1 error.'']\<rparr>]"
    by code_simp
  show ?thesis
    using tsc_error_becomes_result [of plainEnv "(1, [])" crashAfterCycle 1 "[]"] f e by simp
qed

end
